theory Spec2Isabelle
  imports Main
begin

section \<open>Python values and errors\<close>

text \<open>
  The exceptions that \<^verbatim>\<open>Application.py\<close> can raise, one constructor per raise site.
  \<open>AttributeError\<close> stands for Python's own error on a call of a method the class does
  not define and on \<^verbatim>\<open>None.groups()\<close>.
\<close>

datatype error =
    ValueError_NoPathOrId
  | ValueError_CouldNotInit
  | AttributeError
  | ValueError_InitMismatch
  | ValueError_PidMismatch
  | ValueError_DesktopIdMismatch
  | IndexError_EventsInGap

text \<open>A Python \<^verbatim>\<open>str\<close> or \<^verbatim>\<open>None\<close> is a \<open>string option\<close>; \<^verbatim>\<open>if s:\<close> is \<open>truthy s\<close>.\<close>

definition truthy :: "string option \<Rightarrow> bool" where
  "truthy s = (case s of None \<Rightarrow> False | Some v \<Rightarrow> v \<noteq> [])"

text \<open>\<^verbatim>\<open>str.lower()\<close>, on the letters of ASCII.\<close>

definition lower_char :: "char \<Rightarrow> char" where
  "lower_char c =
     (case map_of (zip ''ABCDEFGHIJKLMNOPQRSTUVWXYZ'' ''abcdefghijklmnopqrstuvwxyz'') c of
        None \<Rightarrow> c
      | Some l \<Rightarrow> l)"

definition lower :: "string \<Rightarrow> string" where
  "lower s = map lower_char s"

definition startswith :: "string \<Rightarrow> string \<Rightarrow> bool" where
  "startswith s p = (take (length p) s = p)"

definition endswith :: "string \<Rightarrow> string \<Rightarrow> bool" where
  "endswith s p = (length p \<le> length s \<and> drop (length s - length p) s = p)"

text \<open>The format \<^verbatim>\<open>"%s:%d:%d"\<close> of \<^verbatim>\<open>_regenUid\<close>: \<^verbatim>\<open>%s\<close> of \<^verbatim>\<open>None\<close> prints \<^verbatim>\<open>None\<close>.\<close>

fun show_nat :: "nat \<Rightarrow> string" where
  "show_nat n =
     (if n < 10 then [''0123456789'' ! n]
      else show_nat (n div 10) @ [''0123456789'' ! (n mod 10)])"

declare show_nat.simps [simp del]

definition show_int :: "int \<Rightarrow> string" where
  "show_int i = (if i < 0 then CHR ''-'' # show_nat (nat (- i)) else show_nat (nat i))"

definition str_of :: "string option \<Rightarrow> string" where
  "str_of s = (case s of None \<Rightarrow> ''None'' | Some v \<Rightarrow> v)"

definition format_uid :: "string option \<Rightarrow> int \<Rightarrow> int \<Rightarrow> string" where
  "format_uid d p t = str_of d @ '':'' @ show_int p @ '':'' @ show_int t"

section \<open>Events and the sorted event list\<close>

text \<open>
  Modelled from the spec: the class \<^verbatim>\<open>Event\<close> (module \<^verbatim>\<open>Event\<close>, imported by
  \<^verbatim>\<open>Application.split\<close>) is not among the sources. An event carries a timestamp and a
  kind; \<open>ident\<close> is the identity of the Python object, by which events are compared.
\<close>

record Event =
  ident :: nat
  time :: int
  kind :: string

text \<open>
  \<^verbatim>\<open>sortedlist(key=lambda i: i.time)\<close> of the \<^verbatim>\<open>blist\<close> package keeps its elements in
  ascending order of the key. On such a list \<^verbatim>\<open>bisect_left(Event(time=t))\<close> is the number
  of leading events with a time below \<open>t\<close>, and \<^verbatim>\<open>bisect_right\<close> the number of leading
  events with a time of at most \<open>t\<close>; \<^verbatim>\<open>add\<close> inserts at \<^verbatim>\<open>bisect_right\<close> and
  \<^verbatim>\<open>update\<close> adds the elements one by one.
\<close>

definition bisect_left :: "Event list \<Rightarrow> int \<Rightarrow> nat" where
  "bisect_left evs t = length (takeWhile (\<lambda>e. time e < t) evs)"

definition bisect_right :: "Event list \<Rightarrow> int \<Rightarrow> nat" where
  "bisect_right evs t = length (takeWhile (\<lambda>e. time e \<le> t) evs)"

definition sortedlist_add :: "Event \<Rightarrow> Event list \<Rightarrow> Event list" where
  "sortedlist_add e evs =
     (let i = bisect_right evs (time e) in take i evs @ e # drop i evs)"

definition sortedlist_update :: "Event list \<Rightarrow> Event list \<Rightarrow> Event list" where
  "sortedlist_update evs new = foldl (\<lambda>acc e. sortedlist_add e acc) evs new"

text \<open>
  \<^verbatim>\<open>list(set(xs) - set(ys))\<close>: the elements of \<open>xs\<close> that are not in \<open>ys\<close>, each once.
  Python leaves the order of the resulting list open; the model lists them in the order
  of \<open>xs\<close>.
\<close>

definition set_minus :: "Event list \<Rightarrow> Event list \<Rightarrow> Event list" where
  "set_minus xs ys = remdups (filter (\<lambda>e. e \<notin> set ys) xs)"

section \<open>The environment: descriptor store, pattern, file factory\<close>

text \<open>
  What \<^verbatim>\<open>Application.py\<close> consumes from modules that are not among the sources
  (\<^verbatim>\<open>constants\<close>, \<^verbatim>\<open>xdg.DesktopEntry\<close>, \<^verbatim>\<open>os.path\<close>, \<^verbatim>\<open>FileFactory\<close>) is a parameter:
  \<^item> \<open>DESKTOPPATHS\<close>, the search locations;
  \<^item> \<open>realpath\<close>, \<^verbatim>\<open>os.path.realpath\<close>;
  \<^item> \<open>parse_ok p\<close>: \<^verbatim>\<open>de.parse(p)\<close> returns (it raises \<^verbatim>\<open>ParsingError\<close> otherwise);
  \<^item> \<open>desktopre_match p\<close>: the first group of \<^verbatim>\<open>desktopre.match(p)\<close>, \<open>None\<close> when
    the pattern does not match;
  \<^item> \<open>resolveFDRef\<close>, \<^verbatim>\<open>FileFactory.get().resolveFDRef\<close>.
\<close>

record env =
  DESKTOPPATHS :: "string list"
  realpath :: "string \<Rightarrow> string"
  parse_ok :: "string \<Rightarrow> bool"
  desktopre_match :: "string \<Rightarrow> string option"
  resolveFDRef :: "string \<Rightarrow> int \<Rightarrow> string option"

text \<open>
  A \<^verbatim>\<open>DesktopEntry\<close> object is known by the path it was parsed from, \<open>None\<close> for one
  that no \<^verbatim>\<open>parse\<close> filled.
\<close>

type_synonym DesktopEntry = "string option"

text \<open>
  The class attribute \<^verbatim>\<open>desktopCache\<close>, a dict whose keys are strings or \<^verbatim>\<open>None\<close>.
  \<open>probed\<close> records every path handed to \<^verbatim>\<open>de.parse\<close>, in order: it makes the probing of
  the search locations observable.
\<close>

record resolver =
  desktopCache :: "string option \<rightharpoonup> (string option \<times> DesktopEntry)"
  probed :: "string list"

text \<open>
  The candidate path that \<^verbatim>\<open>__getDesktopFile\<close> builds for a search location, and its
  \<^verbatim>\<open>for path in DESKTOPPATHS\<close> loop.
\<close>

definition depath_of :: "env \<Rightarrow> string \<Rightarrow> string \<Rightarrow> string" where
  "depath_of E desktopid p =
     (if \<not> endswith desktopid ''.desktop''
      then realpath E (p @ desktopid @ ''.desktop'')
      else realpath E (p @ desktopid))"

fun probe_paths ::
  "env \<Rightarrow> string \<Rightarrow> string list \<Rightarrow> string list
    \<Rightarrow> (error + (string option \<times> DesktopEntry)) \<times> string list" where
  "probe_paths E desktopid [] log = (Inr (None, None), log)"
| "probe_paths E desktopid (p # rest) log =
     (let depath = depath_of E desktopid p
      in if \<not> parse_ok E depath then probe_paths E desktopid rest (log @ [depath])
         else (case desktopre_match E depath of
                 None \<Rightarrow> (Inl AttributeError, log @ [depath])
               | Some g \<Rightarrow> (Inr (Some (lower g), Some depath), log @ [depath])))"

definition getDesktopFile ::
  "env \<Rightarrow> resolver \<Rightarrow> string \<Rightarrow> (error + (string option \<times> DesktopEntry)) \<times> resolver" where
  "getDesktopFile E R desktopid =
     (case desktopCache R (Some desktopid) of
        Some hit \<Rightarrow> (Inr hit, R)
      | None \<Rightarrow>
          (case probe_paths E desktopid (DESKTOPPATHS E) (probed R) of
             (Inl e, log) \<Rightarrow> (Inl e, R\<lparr>probed := log\<rparr>)
           | (Inr (finalid, de), log) \<Rightarrow>
               (Inr (finalid, de),
                R\<lparr>desktopCache := (desktopCache R)(finalid \<mapsto> (finalid, de)),
                  probed := log\<rparr>)))"

text \<open>\<^verbatim>\<open>getDesktopIdFromDesktopUri\<close>: the \<^verbatim>\<open>application://\<close> scheme is cut off first.\<close>

definition defile :: "string \<Rightarrow> string" where
  "defile uri = (if startswith uri ''application://'' then drop 14 uri else uri)"

definition getDesktopIdFromDesktopUri ::
  "env \<Rightarrow> resolver \<Rightarrow> string \<Rightarrow> (error + (string option \<times> DesktopEntry)) \<times> resolver" where
  "getDesktopIdFromDesktopUri E R uri =
     (if uri = [] then (Inr (None, None), R)
      else getDesktopFile E R (defile uri))"

section \<open>The Application record\<close>

record Application =
  init :: bool
  desktopid :: "string option"
  interpreterid :: "string option"
  path :: "string option"
  pid :: int
  tstart :: int
  tend :: int
  cmdline :: "string option"
  events :: "Event list"
  fds :: "int \<rightharpoonup> (string \<times> int \<times> int) list"
  uid_field :: string

text \<open>\<^verbatim>\<open>__initFromDesktopID\<close>, on the lower-cased identifier: the resolved identifier.\<close>

definition initFromDesktopID ::
  "env \<Rightarrow> resolver \<Rightarrow> string \<Rightarrow> (error + string) \<times> resolver" where
  "initFromDesktopID E R did =
     (case getDesktopIdFromDesktopUri E R did of
        (Inl e, R') \<Rightarrow> (Inl e, R')
      | (Inr (did', entry), R') \<Rightarrow>
          (case did' of
             None \<Rightarrow> (Inl ValueError_CouldNotInit, R')
           | Some v \<Rightarrow> if v = [] then (Inl ValueError_CouldNotInit, R') else (Inr v, R')))"

definition regenUid :: "Application \<Rightarrow> Application" where
  "regenUid a = a\<lparr>uid_field := format_uid (desktopid a) (pid a) (tstart a)\<rparr>"

definition uid :: "Application \<Rightarrow> string" where
  "uid a = uid_field a"

text \<open>
  \<^verbatim>\<open>Application.__init__\<close>. The class defines no method \<^verbatim>\<open>__initFromPath\<close>, so the call
  in the \<^verbatim>\<open>elif path\<close> branch raises \<^verbatim>\<open>AttributeError\<close>.
\<close>

definition Application_init ::
  "env \<Rightarrow> resolver \<Rightarrow> string option \<Rightarrow> string option \<Rightarrow> int \<Rightarrow> int \<Rightarrow> int \<Rightarrow> string option
    \<Rightarrow> (error + Application) \<times> resolver" where
  "Application_init E R did_arg path_arg pid_arg tstart_arg tend_arg interp_arg =
     (if truthy did_arg then
        (case initFromDesktopID E R (lower (the did_arg)) of
           (Inl e, R') \<Rightarrow> (Inl e, R')
         | (Inr did, R') \<Rightarrow>
             (Inr (regenUid
                \<lparr>init = True, desktopid = Some did,
                 interpreterid =
                   (if truthy interp_arg then Some (lower (the interp_arg)) else None),
                 path = None, pid = pid_arg, tstart = tstart_arg, tend = tend_arg,
                 cmdline = None, events = [], fds = Map.empty, uid_field = ''None''\<rparr>),
              R'))
      else if truthy path_arg then (Inl AttributeError, R)
      else (Inl ValueError_NoPathOrId, R))"

definition setTimeOfStart :: "Application \<Rightarrow> int \<Rightarrow> Application" where
  "setTimeOfStart a v = a\<lparr>tstart := v\<rparr>"

definition setTimeOfEnd :: "Application \<Rightarrow> int \<Rightarrow> Application" where
  "setTimeOfEnd a v = a\<lparr>tend := v\<rparr>"

definition addEvent :: "Application \<Rightarrow> Event \<Rightarrow> Application" where
  "addEvent a e = a\<lparr>events := sortedlist_add e (events a)\<rparr>"

definition clearFDs :: "Application \<Rightarrow> Application" where
  "clearFDs a = a\<lparr>fds := Map.empty\<rparr>"

section \<open>Merging two records\<close>

text \<open>
  \<^verbatim>\<open>merge\<close> assigns to attributes of \<^verbatim>\<open>self\<close> while it reads \<^verbatim>\<open>other\<close>, and both
  names may denote one object. The records therefore live in a store, and each
  assignment of the source is one update of the store, reading the store as it is at
  that point.
\<close>

type_synonym ref = nat

type_synonym heap = "ref \<Rightarrow> Application"

definition upd :: "heap \<Rightarrow> ref \<Rightarrow> (Application \<Rightarrow> Application) \<Rightarrow> heap" where
  "upd h r f = h(r := f (h r))"

text \<open>
  The identity check of \<^verbatim>\<open>merge\<close> (lines 235 to 245): the store after it, or the
  \<^verbatim>\<open>ValueError\<close>.
\<close>

definition merge_identity :: "heap \<Rightarrow> ref \<Rightarrow> ref \<Rightarrow> error + heap" where
  "merge_identity h self other =
     (if desktopid (h self) \<noteq> desktopid (h other) then
        (if interpreterid (h self) = desktopid (h other) then Inr h
         else if desktopid (h self) = interpreterid (h other) then
           (let h1 = upd h self (\<lambda>a. a\<lparr>desktopid := desktopid (h other)\<rparr>);
                h2 = upd h1 self regenUid;
                h3 = upd h2 self (\<lambda>a. a\<lparr>interpreterid := interpreterid (h2 other)\<rparr>)
            in Inr h3)
         else Inl ValueError_DesktopIdMismatch)
      else Inr h)"

text \<open>The assignments of \<^verbatim>\<open>merge\<close> after the checks (lines 247 to 258).\<close>

definition merge_fields :: "heap \<Rightarrow> ref \<Rightarrow> ref \<Rightarrow> heap" where
  "merge_fields h self other =
     (let h1 = (if \<not> truthy (path (h self)) \<and> truthy (path (h other))
                then upd h self (\<lambda>a. a\<lparr>path := path (h other)\<rparr>) else h);
          h2 = (if \<not> truthy (cmdline (h1 self)) \<and> truthy (cmdline (h1 other))
                then upd h1 self (\<lambda>a. a\<lparr>cmdline := cmdline (h1 other)\<rparr>) else h1);
          h3 = upd h2 self (\<lambda>a. setTimeOfStart a (min (tstart (h2 other)) (tstart (h2 self))));
          h4 = upd h3 self (\<lambda>a. setTimeOfEnd a (max (tend (h3 other)) (tend (h3 self))));
          h5 = upd h4 self (\<lambda>a. a\<lparr>events :=
                 sortedlist_update (events a) (set_minus (events (h4 other)) (events (h4 self)))\<rparr>);
          h6 = upd h5 self regenUid
      in h6)"

text \<open>\<^verbatim>\<open>merge\<close>: the returned reference (\<^verbatim>\<open>self\<close>) or the error, and the store after the call.\<close>

definition merge :: "heap \<Rightarrow> ref \<Rightarrow> ref \<Rightarrow> (error + ref) \<times> heap" where
  "merge h self other =
     (if init (h self) \<noteq> init (h other) then (Inl ValueError_InitMismatch, h)
      else if pid (h self) \<noteq> pid (h other) then (Inl ValueError_PidMismatch, h)
      else (case merge_identity h self other of
              Inl e \<Rightarrow> (Inl e, h)
            | Inr h' \<Rightarrow> (Inr self, merge_fields h' self other)))"

section \<open>Splitting a record\<close>

text \<open>
  \<^verbatim>\<open>split\<close>: the pair of copies or the \<^verbatim>\<open>IndexError\<close>, and the receiver after the call.
  The source only reads \<^verbatim>\<open>self\<close> (\<^verbatim>\<open>deepcopy\<close>, slices of \<^verbatim>\<open>self.events\<close>).
\<close>

definition split ::
  "Application \<Rightarrow> int \<Rightarrow> int \<Rightarrow> (error + Application \<times> Application) \<times> Application" where
  "split self beforeEnd afterStart =
     (let il = bisect_left (events self) beforeEnd;
          ir = bisect_right (events self) afterStart
      in if il \<noteq> ir then (Inl IndexError_EventsInGap, self)
         else
           (let appLeft = self\<lparr>events := take il (events self)\<rparr>;
                appLeft = (if length (events appLeft) \<noteq> 0
                           then appLeft\<lparr>tend := time (last (events appLeft))\<rparr> else appLeft);
                appRight = self\<lparr>events := drop ir (events self)\<rparr>;
                appRight = (if length (events appRight) \<noteq> 0
                            then appRight\<lparr>tstart := time (hd (events appRight))\<rparr> else appRight)
            in (Inr (appLeft, appRight), self)))"

section \<open>The file descriptor table\<close>

definition openFD :: "env \<Rightarrow> Application \<Rightarrow> int \<Rightarrow> string \<Rightarrow> int \<Rightarrow> Application" where
  "openFD E self fd p t =
     (let fdList = (case fds self fd of None \<Rightarrow> [] | Some l \<Rightarrow> l);
          p' = (if startswith p ''@''
                then (case resolveFDRef E p t of
                        None \<Rightarrow> p
                      | Some r \<Rightarrow> if r = [] then p else r)
                else p)
      in self\<lparr>fds := (fds self)(fd \<mapsto> fdList @ [(p', t, 0)])\<rparr>)"

definition closeFD :: "Application \<Rightarrow> int \<Rightarrow> int \<Rightarrow> Application" where
  "closeFD self fd t =
     (case fds self fd of
        None \<Rightarrow> self
      | Some fdList \<Rightarrow>
          if fdList = [] then self
          else (case last fdList of
                  (p, t0, t1) \<Rightarrow>
                    if t1 = 0
                    then self\<lparr>fds := (fds self)(fd \<mapsto> butlast fdList @ [(p, t0, t)])\<rparr>
                    else self))"

text \<open>The \<^verbatim>\<open>for (path, tstart, tend) in fds\<close> loop of \<^verbatim>\<open>resolveFD\<close>.\<close>

fun scan_fds :: "(string \<times> int \<times> int) list \<Rightarrow> int \<Rightarrow> string option" where
  "scan_fds [] t = None"
| "scan_fds ((p, t0, t1) # rest) t =
     (if t \<ge> t0 \<and> (t1 = 0 \<or> t \<le> t1) then Some p else scan_fds rest t)"

definition resolveFD :: "Application \<Rightarrow> int \<Rightarrow> int \<Rightarrow> string option" where
  "resolveFD self fd t =
     (case fds self fd of
        None \<Rightarrow> None
      | Some l \<Rightarrow> if l = [] then None else scan_fds l t)"

text \<open>A call of \<^verbatim>\<open>openFD\<close> or \<^verbatim>\<open>closeFD\<close>, and a sequence of calls run in order.\<close>

datatype fdcall = OpenFD int string int | CloseFD int int

fun fdcall_run :: "env \<Rightarrow> Application \<Rightarrow> fdcall \<Rightarrow> Application" where
  "fdcall_run E a (OpenFD fd p t) = openFD E a fd p t"
| "fdcall_run E a (CloseFD fd t) = closeFD a fd t"

definition fdcalls_run :: "env \<Rightarrow> Application \<Rightarrow> fdcall list \<Rightarrow> Application" where
  "fdcalls_run E a cs = foldl (fdcall_run E) a cs"

text \<open>
  The wording of the specification for a handle interval and a queried time: the
  interval contains the time when the time is not before its opening and either the
  interval is still open (close time 0) or the time is not after its closing.
\<close>

definition contains_time :: "string \<times> int \<times> int \<Rightarrow> int \<Rightarrow> bool" where
  "contains_time iv t = (case iv of (p, t0, t1) \<Rightarrow> t0 \<le> t \<and> (t1 = 0 \<or> t \<le> t1))"

definition intervals :: "Application \<Rightarrow> int \<Rightarrow> (string \<times> int \<times> int) list" where
  "intervals a fd = (case fds a fd of None \<Rightarrow> [] | Some l \<Rightarrow> l)"

section \<open>A concrete environment\<close>

text \<open>
  One search location in which only \<^verbatim>\<open>ristretto.desktop\<close> exists; the pattern takes the
  name between the last directory and the extension.
\<close>

definition demo_env :: env where
  "demo_env =
     \<lparr>DESKTOPPATHS = [''/usr/share/applications/''],
      realpath = (\<lambda>p. p),
      parse_ok = (\<lambda>p. p = ''/usr/share/applications/ristretto.desktop''),
      desktopre_match =
        (\<lambda>p. if p = ''/usr/share/applications/ristretto.desktop'' then Some ''ristretto''
              else None),
      resolveFDRef = (\<lambda>p t. None)\<rparr>"

definition empty_resolver :: resolver where
  "empty_resolver = \<lparr>desktopCache = Map.empty, probed = []\<rparr>"

text \<open>
  The record of the specification's example: identifier \<^verbatim>\<open>ristretto\<close>, pid 21, start 0,
  end 300, and the same record after it received one event at time 140.
\<close>

definition ristretto :: Application where
  "ristretto =
     \<lparr>init = True, desktopid = Some ''ristretto'', interpreterid = None, path = None,
      pid = 21, tstart = 0, tend = 300, cmdline = None, events = [], fds = Map.empty,
      uid_field = ''ristretto:21:0''\<rparr>"

definition event140 :: Event where
  "event140 = \<lparr>ident = 1, time = 140, kind = ''file-create''\<rparr>"

definition ristretto140 :: Application where
  "ristretto140 = addEvent ristretto event140"

text \<open>Further records for concrete runs: the same record with other events.\<close>

definition event139 :: Event where
  "event139 = \<lparr>ident = 2, time = 139, kind = ''file-read''\<rparr>"

definition ristretto139 :: Application where
  "ristretto139 = addEvent ristretto event139"

definition event100 :: Event where
  "event100 = \<lparr>ident = 3, time = 100, kind = ''file-read''\<rparr>"

definition event200 :: Event where
  "event200 = \<lparr>ident = 4, time = 200, kind = ''file-read''\<rparr>"

definition ristretto3 :: Application where
  "ristretto3 = addEvent (addEvent (addEvent ristretto event200) event100) event140"

text \<open>Records and stores for concrete merges.\<close>

definition running_app :: Application where
  "running_app =
     \<lparr>init = True, desktopid = Some ''ristretto'', interpreterid = None, path = None,
      pid = 21, tstart = 10, tend = 0, cmdline = None, events = [], fds = Map.empty,
      uid_field = ''ristretto:21:10''\<rparr>"

definition ended_app :: Application where
  "ended_app =
     \<lparr>init = True, desktopid = Some ''ristretto'', interpreterid = None,
      path = Some ''/usr/bin/ristretto'', pid = 21, tstart = 5, tend = 300,
      cmdline = Some ''ristretto sample.jpg'', events = [event140], fds = Map.empty,
      uid_field = ''ristretto:21:5''\<rparr>"

definition script_app :: Application where
  "script_app =
     \<lparr>init = True, desktopid = Some ''myscript'', interpreterid = Some ''python'',
      path = None, pid = 7, tstart = 10, tend = 20, cmdline = None, events = [],
      fds = Map.empty, uid_field = ''myscript:7:10''\<rparr>"

definition python_app :: Application where
  "python_app =
     \<lparr>init = True, desktopid = Some ''python'', interpreterid = None,
      path = None, pid = 7, tstart = 8, tend = 30, cmdline = None, events = [],
      fds = Map.empty, uid_field = ''python:7:8''\<rparr>"

definition ristretto_heap :: heap where
  "ristretto_heap = (\<lambda>r. ristretto)(0 := running_app, 1 := ended_app)"

definition script_heap :: heap where
  "script_heap = (\<lambda>r. ristretto)(0 := script_app, 1 := python_app)"

text \<open>The resolver after a first, failed resolution of \<^verbatim>\<open>foo.desktop\<close>.\<close>

definition foo_resolver :: resolver where
  "foo_resolver = snd (initFromDesktopID demo_env empty_resolver ''foo.desktop'')"

section \<open>The sorted event list\<close>

lemma takeWhile_filter_lt:
  "sorted (map time evs) \<Longrightarrow> takeWhile (\<lambda>e. time e < t) evs = filter (\<lambda>e. time e < t) evs"
  by (induction evs) (fastforce simp: empty_filter_conv)+

lemma takeWhile_filter_le:
  "sorted (map time evs) \<Longrightarrow> takeWhile (\<lambda>e. time e \<le> t) evs = filter (\<lambda>e. time e \<le> t) evs"
  by (induction evs) (fastforce simp: empty_filter_conv)+

lemma filter_all: "\<forall>x \<in> set xs. P x \<Longrightarrow> filter P xs = xs"
  by (induction xs) auto

lemma dropWhile_filter_le:
  "sorted (map time evs) \<Longrightarrow> dropWhile (\<lambda>e. time e \<le> t) evs = filter (\<lambda>e. t < time e) evs"
proof (induction evs)
  case Nil
  then show ?case by simp
next
  case (Cons x xs)
  show ?case
  proof (cases "time x \<le> t")
    case True
    with Cons show ?thesis by simp
  next
    case False
    with Cons.prems have "\<forall>y \<in> set xs. t < time y" by fastforce
    then have "filter (\<lambda>e. t < time e) xs = xs" by (rule filter_all)
    with False show ?thesis by simp
  qed
qed

lemma length_filter_split:
  "b \<le> a \<Longrightarrow> length (filter (\<lambda>e. time e \<le> a) evs) =
     length (filter (\<lambda>e. time e < b) evs) + length (filter (\<lambda>e. b \<le> time e \<and> time e \<le> a) evs)"
  by (induction evs) auto

lemma bisect_eq_iff:
  assumes "sorted (map time evs)" "b \<le> a"
  shows "bisect_left evs b = bisect_right evs a \<longleftrightarrow> (\<forall>e \<in> set evs. \<not> (b \<le> time e \<and> time e \<le> a))"
  using assms
  by (simp add: bisect_left_def bisect_right_def takeWhile_filter_lt takeWhile_filter_le
      length_filter_split filter_empty_conv)

lemma take_bisect_left:
  assumes "sorted (map time evs)"
  shows "take (bisect_left evs t) evs = filter (\<lambda>e. time e < t) evs"
proof -
  have "take (bisect_left evs t) evs = takeWhile (\<lambda>e. time e < t) evs"
    unfolding bisect_left_def by (rule takeWhile_eq_take [symmetric])
  with assms show ?thesis by (simp only: takeWhile_filter_lt)
qed

lemma drop_bisect_right:
  assumes "sorted (map time evs)"
  shows "drop (bisect_right evs t) evs = filter (\<lambda>e. t < time e) evs"
proof -
  have "drop (bisect_right evs t) evs = dropWhile (\<lambda>e. time e \<le> t) evs"
    unfolding bisect_right_def by (rule dropWhile_eq_drop [symmetric])
  with assms show ?thesis by (simp only: dropWhile_filter_le)
qed

lemma split_receiver: "snd (split self b a) = self"
  by (simp add: split_def Let_def)

lemma split_fails_iff:
  "fst (split self b a) = Inl IndexError_EventsInGap
     \<longleftrightarrow> bisect_left (events self) b \<noteq> bisect_right (events self) a"
  by (simp add: split_def Let_def)

lemma split_succeeds_iff:
  "(\<exists>l r. fst (split self b a) = Inr (l, r))
     \<longleftrightarrow> bisect_left (events self) b = bisect_right (events self) a"
  by (simp add: split_def Let_def)

lemma split_events:
  assumes "fst (split self b a) = Inr (l, r)"
  shows "events l = take (bisect_left (events self) b) (events self)"
    and "events r = drop (bisect_right (events self) a) (events self)"
  using assms by (auto simp: split_def Let_def split: if_splits)

lemma sorted_ristretto3: "events ristretto3 = [event100, event140, event200]"
  by (simp add: ristretto3_def ristretto_def addEvent_def sortedlist_add_def bisect_right_def
      event100_def event140_def event200_def)

section \<open>Claims about split\<close>

text \<open>
  C2. On a record whose event list is ordered by time, and for bounds with
  \<open>beforeEnd \<le> afterStart\<close>: when an event lies strictly between the bounds, \<open>split\<close>
  raises the \<^verbatim>\<open>IndexError\<close> and leaves the record as it was (no event is dropped); and
  \<open>split\<close> returns a pair only when no event lies strictly between the bounds.
\<close>

theorem split_event_in_gap_fails:
  assumes "sorted (map time (events self))" and "beforeEnd \<le> afterStart"
  shows "((\<exists>e \<in> set (events self). beforeEnd < time e \<and> time e < afterStart) \<longrightarrow>
            split self beforeEnd afterStart = (Inl IndexError_EventsInGap, self))
       \<and> ((\<exists>l r. fst (split self beforeEnd afterStart) = Inr (l, r)) \<longrightarrow>
            \<not> (\<exists>e \<in> set (events self). beforeEnd < time e \<and> time e < afterStart))"
proof -
  have gap: "bisect_left (events self) beforeEnd \<noteq> bisect_right (events self) afterStart"
    if "\<exists>e \<in> set (events self). beforeEnd < time e \<and> time e < afterStart"
  proof -
    from that obtain e where "e \<in> set (events self)" "beforeEnd \<le> time e" "time e \<le> afterStart"
      by force
    then show ?thesis using bisect_eq_iff [OF assms] by blast
  qed
  have fails: "split self beforeEnd afterStart = (Inl IndexError_EventsInGap, self)"
    if "\<exists>e \<in> set (events self). beforeEnd < time e \<and> time e < afterStart"
    using gap [OF that] split_fails_iff [of self beforeEnd afterStart]
      split_receiver [of self beforeEnd afterStart]
    by (metis prod.collapse)
  have succ: "\<not> (\<exists>e \<in> set (events self). beforeEnd < time e \<and> time e < afterStart)"
    if "\<exists>l r. fst (split self beforeEnd afterStart) = Inr (l, r)"
    using that gap split_succeeds_iff [of self beforeEnd afterStart] by blast
  from fails succ show ?thesis by blast
qed

theorem split_event_in_gap_fails_witness:
  "sorted (map time (events ristretto3)) \<and> (120::int) \<le> 160
   \<and> (\<exists>e \<in> set (events ristretto3). 120 < time e \<and> time e < 160)
   \<and> split ristretto3 120 160 = (Inl IndexError_EventsInGap, ristretto3)
   \<and> events (snd (split ristretto3 120 160)) = [event100, event140, event200]"
proof -
  have s: "sorted (map time (events ristretto3))"
    by (simp add: sorted_ristretto3 event100_def event140_def event200_def)
  have le: "(120::int) \<le> 160" by simp
  have ex: "\<exists>e \<in> set (events ristretto3). 120 < time e \<and> time e < 160"
    by (simp add: sorted_ristretto3 event100_def event140_def event200_def)
  from split_event_in_gap_fails [OF s le] ex
  have "split ristretto3 120 160 = (Inl IndexError_EventsInGap, ristretto3)" by blast
  with s le ex show ?thesis by (simp add: sorted_ristretto3)
qed

text \<open>The concrete records: their event lists, and how the constructor yields the first.\<close>

lemma events_ristretto140: "events ristretto140 = [event140]"
  by (simp add: ristretto140_def ristretto_def addEvent_def sortedlist_add_def bisect_right_def)

lemma events_ristretto139: "events ristretto139 = [event139]"
  by (simp add: ristretto139_def ristretto_def addEvent_def sortedlist_add_def bisect_right_def)

lemma ristretto_constructed:
  "fst (Application_init demo_env empty_resolver (Some ''ristretto.desktop'') None 21 0 300 None)
     = Inr ristretto"
  by (simp add: Application_init_def truthy_def initFromDesktopID_def
      getDesktopIdFromDesktopUri_def getDesktopFile_def demo_env_def empty_resolver_def
      defile_def depath_of_def
      startswith_def endswith_def lower_def lower_char_def regenUid_def format_uid_def
      str_of_def show_int_def show_nat.simps ristretto_def Let_def)

text \<open>
  C3, as the specification states it, fails: an event whose time is exactly a bound is
  not strictly between the bounds, and \<open>split\<close> raises all the same.
\<close>

theorem split_bound_event_counterexample:
  "sorted (map time (events ristretto139)) \<and> (139::int) \<le> 141
   \<and> \<not> (\<exists>e \<in> set (events ristretto139). 139 < time e \<and> time e < 141)
   \<and> fst (split ristretto139 139 141) = Inl IndexError_EventsInGap"
  by (simp add: events_ristretto139 split_def bisect_left_def bisect_right_def event139_def)

text \<open>
  C3, amended. On a record whose event list is ordered by time, and for bounds with
  \<open>beforeEnd \<le> afterStart\<close>: \<open>split\<close> returns a pair exactly when no event has a time in
  the closed range from \<open>beforeEnd\<close> to \<open>afterStart\<close>; then the left record holds the
  events with a time below \<open>beforeEnd\<close>, the right record those with a time above
  \<open>afterStart\<close>, and the left events followed by the right events are the original
  events.
\<close>

theorem split_partitions:
  assumes "sorted (map time (events self))" and "beforeEnd \<le> afterStart"
  shows "((\<exists>l r. fst (split self beforeEnd afterStart) = Inr (l, r))
            \<longleftrightarrow> (\<forall>e \<in> set (events self). time e < beforeEnd \<or> afterStart < time e))
       \<and> (\<forall>l r. fst (split self beforeEnd afterStart) = Inr (l, r) \<longrightarrow>
             events l = filter (\<lambda>e. time e < beforeEnd) (events self)
           \<and> events r = filter (\<lambda>e. afterStart < time e) (events self)
           \<and> events l @ events r = events self)"
proof -
  let ?evs = "events self"
  let ?il = "bisect_left ?evs beforeEnd"
  let ?ir = "bisect_right ?evs afterStart"
  have iff: "(\<exists>l r. fst (split self beforeEnd afterStart) = Inr (l, r))
            \<longleftrightarrow> (\<forall>e \<in> set ?evs. time e < beforeEnd \<or> afterStart < time e)"
    using split_succeeds_iff [of self beforeEnd afterStart] bisect_eq_iff [OF assms]
    by (simp add: not_le not_less)
  have parts: "events l = filter (\<lambda>e. time e < beforeEnd) ?evs
           \<and> events r = filter (\<lambda>e. afterStart < time e) ?evs
           \<and> events l @ events r = ?evs"
    if ok: "fst (split self beforeEnd afterStart) = Inr (l, r)" for l r
  proof -
    from ok have eq: "?il = ?ir"
      using split_succeeds_iff [of self beforeEnd afterStart] by blast
    have l: "events l = take ?il ?evs" and r: "events r = drop ?ir ?evs"
      using split_events [OF ok] by simp_all
    have "events l @ events r = ?evs" by (simp add: l r eq)
    with l r show ?thesis
      by (simp add: take_bisect_left [OF assms(1)] drop_bisect_right [OF assms(1)])
  qed
  from iff parts show ?thesis by blast
qed

theorem split_partitions_witness:
  "sorted (map time (events ristretto3)) \<and> (150::int) \<le> 160
   \<and> fst (split ristretto3 150 160) =
        Inr (ristretto3\<lparr>events := [event100, event140], tend := 140\<rparr>,
             ristretto3\<lparr>events := [event200], tstart := 200\<rparr>)
   \<and> events (fst (projr (fst (split ristretto3 150 160))))
       @ events (snd (projr (fst (split ristretto3 150 160)))) = events ristretto3"
proof -
  have s: "sorted (map time (events ristretto3))"
    by (simp add: sorted_ristretto3 event100_def event140_def event200_def)
  have le: "(150::int) \<le> 160" by simp
  have v: "fst (split ristretto3 150 160) =
        Inr (ristretto3\<lparr>events := [event100, event140], tend := 140\<rparr>,
             ristretto3\<lparr>events := [event200], tstart := 200\<rparr>)"
    by (simp add: split_def sorted_ristretto3 bisect_left_def bisect_right_def
        event100_def event140_def event200_def)
  from split_partitions [OF s le] v
  have "events (ristretto3\<lparr>events := [event100, event140], tend := 140\<rparr>)
          @ events (ristretto3\<lparr>events := [event200], tstart := 200\<rparr>) = events ristretto3"
    by blast
  with s le v show ?thesis by simp
qed

text \<open>
  C8, as the specification states it, fails: the event at 140 lies between the bounds 139
  and 141, so \<open>split\<close> raises.
\<close>

theorem ristretto_split_139_141_counterexample:
  "split ristretto140 139 141 = (Inl IndexError_EventsInGap, ristretto140)"
  by (simp add: split_def events_ristretto140 bisect_left_def bisect_right_def event140_def)

text \<open>
  C8, amended. For the record with identifier \<^verbatim>\<open>ristretto\<close>, pid 21, start 0, end 300 and
  one event at time 140: \<open>split\<close> at 139 and 141 raises the \<^verbatim>\<open>IndexError\<close> and leaves the
  record as it was; \<open>split\<close> at 100 and 139 returns a left record with no event and its
  end still 300, and a right record with the event at 140 and its start set to 140.
\<close>

theorem ristretto_split_example:
  "split ristretto140 139 141 = (Inl IndexError_EventsInGap, ristretto140)
   \<and> events ristretto140 = [event140] \<and> time event140 = 140
   \<and> fst (split ristretto140 100 139) =
        Inr (ristretto140\<lparr>events := []\<rparr>, ristretto140\<lparr>tstart := 140\<rparr>)
   \<and> tend (ristretto140\<lparr>events := []\<rparr>) = 300
   \<and> events (ristretto140\<lparr>tstart := 140\<rparr>) = [event140]
   \<and> tstart (ristretto140\<lparr>tstart := 140\<rparr>) = 140"
  by (simp add: split_def events_ristretto140 bisect_left_def bisect_right_def event140_def)
    (simp add: ristretto140_def ristretto_def addEvent_def)

section \<open>Claims about merge\<close>

text \<open>
  What each part of \<open>merge\<close> does to the store.
\<close>

lemma set_minus_self: "set_minus xs xs = []"
  by (simp add: set_minus_def)

lemma sortedlist_update_Nil: "sortedlist_update evs [] = evs"
  by (simp add: sortedlist_update_def)

lemma merge_fields_tstart:
  "tstart (merge_fields h self other self) = min (tstart (h self)) (tstart (h other))"
  by (simp add: merge_fields_def upd_def Let_def setTimeOfStart_def setTimeOfEnd_def
      regenUid_def min.commute)

lemma merge_fields_tend:
  "tend (merge_fields h self other self) = max (tend (h self)) (tend (h other))"
  by (simp add: merge_fields_def upd_def Let_def setTimeOfStart_def setTimeOfEnd_def
      regenUid_def max.commute)

lemma merge_fields_desktopid:
  "desktopid (merge_fields h self other self) = desktopid (h self)"
  by (simp add: merge_fields_def upd_def Let_def setTimeOfStart_def setTimeOfEnd_def
      regenUid_def)

lemma merge_fields_other:
  "self \<noteq> other \<Longrightarrow> merge_fields h self other other = h other"
  by (simp add: merge_fields_def upd_def Let_def)

lemma merge_fields_alias:
  "(merge_fields h self self self)\<lparr>uid_field := uid_field (h self)\<rparr> = h self"
  by (simp add: merge_fields_def upd_def Let_def setTimeOfStart_def setTimeOfEnd_def
      regenUid_def set_minus_self sortedlist_update_Nil)

lemma merge_identity_times:
  "merge_identity h self other = Inr h' \<Longrightarrow>
     tstart (h' x) = tstart (h x) \<and> tend (h' x) = tend (h x)"
  by (auto simp: merge_identity_def upd_def Let_def regenUid_def split: if_splits)

lemma merge_identity_other:
  "merge_identity h self other = Inr h' \<Longrightarrow> self \<noteq> other \<Longrightarrow> h' other = h other"
  by (auto simp: merge_identity_def upd_def Let_def split: if_splits)

lemma merge_identity_alias:
  "merge_identity h self self = Inr h"
  by (simp add: merge_identity_def)

lemma merge_error_heap:
  "fst (merge h self other) = Inl e \<Longrightarrow> snd (merge h self other) = h"
  by (auto simp: merge_def split: if_splits sum.splits)

lemma merge_returns_self:
  "fst (merge h self other) = Inr r \<Longrightarrow> r = self"
  by (auto simp: merge_def split: if_splits sum.splits)

text \<open>
  C1, as the specification states it, fails: an end of 0 (unbounded) on one side does not
  survive the merge, \<open>max\<close> replaces it by the other side's end.
\<close>

theorem merge_unbounded_end_counterexample:
  "tend (ristretto_heap 0) = 0 \<and> tend (ristretto_heap 1) = 300
   \<and> fst (merge ristretto_heap 0 1) = Inr 0
   \<and> tend (snd (merge ristretto_heap 0 1) 0) = 300"
  by (simp add: ristretto_heap_def running_app_def ended_app_def merge_def merge_identity_def
      merge_fields_tend)

text \<open>
  C1, amended. Whenever \<open>merge\<close> returns, the start of the merged record is the minimum
  of the two starts and its end is the maximum of the two ends, also when one of the ends
  is 0: the code has no case for an unbounded end.
\<close>

theorem merge_time_window:
  assumes "fst (merge h self other) = Inr r"
  shows "tstart (snd (merge h self other) r) = min (tstart (h self)) (tstart (h other))
       \<and> tend (snd (merge h self other) r) = max (tend (h self)) (tend (h other))"
proof -
  from assms have r: "r = self" by (rule merge_returns_self)
  from assms obtain h' where id: "merge_identity h self other = Inr h'"
    and m: "snd (merge h self other) = merge_fields h' self other"
    by (auto simp: merge_def split: if_splits sum.splits)
  have "tstart (h' self) = tstart (h self)" "tstart (h' other) = tstart (h other)"
    "tend (h' self) = tend (h self)" "tend (h' other) = tend (h other)"
    using merge_identity_times [OF id] by simp_all
  then show ?thesis
    by (simp add: r m merge_fields_tstart merge_fields_tend)
qed

theorem merge_time_window_witness:
  "fst (merge ristretto_heap 0 1) = Inr 0
   \<and> tstart (snd (merge ristretto_heap 0 1) 0) = 5
   \<and> tend (snd (merge ristretto_heap 0 1) 0) = 300"
proof -
  have ok: "fst (merge ristretto_heap 0 1) = Inr 0"
    by (simp add: ristretto_heap_def running_app_def ended_app_def merge_def merge_identity_def)
  from merge_time_window [OF ok] ok show ?thesis
    by (simp add: ristretto_heap_def running_app_def ended_app_def)
qed

text \<open>
  C4, as the specification states it, fails: when the interpreter identity of \<open>self\<close> is
  the identifier of \<open>other\<close>, \<open>merge\<close> returns, and the merged record has the identifier
  of \<open>self\<close>, not the one of \<open>other\<close>.
\<close>

theorem merge_interpreter_counterexample:
  "init (script_heap 0) = init (script_heap 1) \<and> pid (script_heap 0) = pid (script_heap 1)
   \<and> interpreterid (script_heap 0) = desktopid (script_heap 1)
   \<and> fst (merge script_heap 0 1) = Inr 0
   \<and> desktopid (snd (merge script_heap 0 1) 0) = Some ''myscript''
   \<and> desktopid (script_heap 1) = Some ''python''"
  by (simp add: script_heap_def script_app_def python_app_def merge_def merge_identity_def
      merge_fields_desktopid)

text \<open>
  C4, amended. For two records with equal pid and equal initialisation status, where the
  interpreter identity of \<open>self\<close> equals the identifier of \<open>other\<close>: \<open>merge\<close> returns
  \<open>self\<close>, and the merged record keeps the identifier of \<open>self\<close>; it has the identifier of
  \<open>other\<close> only when the two identifiers were equal before.
\<close>

theorem merge_interpreter_keeps_identity:
  assumes "init (h self) = init (h other)" and "pid (h self) = pid (h other)"
    and "interpreterid (h self) = desktopid (h other)"
  shows "fst (merge h self other) = Inr self
       \<and> desktopid (snd (merge h self other) self) = desktopid (h self)
       \<and> (desktopid (snd (merge h self other) self) = desktopid (h other)
            \<longleftrightarrow> desktopid (h self) = desktopid (h other))"
proof -
  from assms(3) have id: "merge_identity h self other = Inr h"
    by (simp add: merge_identity_def)
  with assms(1,2) have "merge h self other = (Inr self, merge_fields h self other)"
    by (simp add: merge_def)
  then show ?thesis by (simp add: merge_fields_desktopid)
qed

theorem merge_interpreter_keeps_identity_witness:
  "init (script_heap 0) = init (script_heap 1) \<and> pid (script_heap 0) = pid (script_heap 1)
   \<and> interpreterid (script_heap 0) = desktopid (script_heap 1)
   \<and> fst (merge script_heap 0 1) = Inr 0
   \<and> desktopid (snd (merge script_heap 0 1) 0) = desktopid (script_heap 0)"
proof -
  have a: "init (script_heap 0) = init (script_heap 1)"
    and b: "pid (script_heap 0) = pid (script_heap 1)"
    and c: "interpreterid (script_heap 0) = desktopid (script_heap 1)"
    by (simp_all add: script_heap_def script_app_def python_app_def)
  from merge_interpreter_keeps_identity [OF a b c] a b c show ?thesis by simp
qed

text \<open>
  The mirrored case is the one in which \<open>self\<close> takes the identity of \<open>other\<close>: the
  identifier of \<open>self\<close> is the interpreter identity of \<open>other\<close>.
\<close>

lemma merge_adopts_identity:
  assumes "init (h self) = init (h other)" and "pid (h self) = pid (h other)"
    and "desktopid (h self) \<noteq> desktopid (h other)"
    and "interpreterid (h self) \<noteq> desktopid (h other)"
    and "desktopid (h self) = interpreterid (h other)"
  shows "fst (merge h self other) = Inr self
       \<and> desktopid (snd (merge h self other) self) = desktopid (h other)
       \<and> interpreterid (snd (merge h self other) self) = interpreterid (h other)"
proof -
  from assms(3) have ne: "self \<noteq> other" by auto
  then show ?thesis using assms
    by (simp add: merge_def merge_identity_def Let_def upd_def regenUid_def
        merge_fields_desktopid)
      (simp add: merge_fields_def upd_def Let_def setTimeOfStart_def setTimeOfEnd_def
        regenUid_def)
qed

text \<open>
  C10. \<open>merge\<close> writes to \<open>self\<close> only. Whether it returns or raises, a record \<open>other\<close>
  that is not \<open>self\<close> is the same afterwards; and in every case, also when \<open>other\<close> is
  \<open>self\<close>, the identifier, interpreter identity, pid, start, end, path, command line,
  events and handle table of \<open>other\<close> are as before (everything but the cached key of a
  record merged with itself).
\<close>

theorem merge_leaves_other:
  "(self \<noteq> other \<longrightarrow> snd (merge h self other) other = h other)
   \<and> (snd (merge h self other) other)\<lparr>uid_field := uid_field (h other)\<rparr> = h other"
proof -
  have dist_case: "snd (merge h self other) other = h other" if "self \<noteq> other"
    using that
    by (auto simp: merge_def merge_fields_other merge_identity_other
        split: if_splits sum.splits)
  have alias_case: "(snd (merge h self self) self)\<lparr>uid_field := uid_field (h self)\<rparr> = h self"
    by (simp add: merge_def merge_identity_alias merge_fields_alias)
  show ?thesis
  proof (cases "self = other")
    case True
    with alias_case show ?thesis by simp
  next
    case False
    with dist_case show ?thesis by simp
  qed
qed

theorem merge_leaves_other_witness:
  "(0::nat) \<noteq> 1 \<and> fst (merge ristretto_heap 0 1) = Inr 0
   \<and> snd (merge ristretto_heap 0 1) 1 = ended_app
   \<and> path (snd (merge ristretto_heap 0 1) 0) = Some ''/usr/bin/ristretto''"
proof -
  have ne: "(0::nat) \<noteq> 1" by simp
  have ok: "fst (merge ristretto_heap 0 1) = Inr 0"
    by (simp add: ristretto_heap_def running_app_def ended_app_def merge_def merge_identity_def)
  have p: "path (snd (merge ristretto_heap 0 1) 0) = Some ''/usr/bin/ristretto''"
    by (simp add: ristretto_heap_def running_app_def ended_app_def merge_def merge_identity_def
        merge_fields_def upd_def Let_def setTimeOfStart_def setTimeOfEnd_def regenUid_def
        truthy_def)
  from merge_leaves_other [of 0 1 ristretto_heap] ne
  have "snd (merge ristretto_heap 0 1) 1 = ristretto_heap 1" by blast
  with ne ok p show ?thesis by (simp add: ristretto_heap_def)
qed

section \<open>Claims about construction and the unique key\<close>

text \<open>
  Construction without an identifier and without a path raises the \<^verbatim>\<open>ValueError\<close> and does
  not touch the resolver.
\<close>

lemma Application_init_neither:
  "\<not> truthy d \<Longrightarrow> \<not> truthy p \<Longrightarrow>
     Application_init E R d p pid0 ts te i = (Inl ValueError_NoPathOrId, R)"
  by (simp add: Application_init_def)

text \<open>
  The resolver itself raises nothing but the \<^verbatim>\<open>AttributeError\<close> of a pattern that does not
  match; so construction from an identifier raises the \<^verbatim>\<open>ValueError\<close> of
  \<^verbatim>\<open>__initFromDesktopID\<close> exactly when the resolver returns no identifier.
\<close>

lemma probe_paths_error:
  "fst (probe_paths E d ps log) = Inl e \<Longrightarrow> e = AttributeError"
  by (induction ps arbitrary: log) (auto simp: Let_def split: if_splits option.splits)

lemma getDesktopFile_error:
  "fst (getDesktopFile E R d) = Inl e \<Longrightarrow> e = AttributeError"
  using probe_paths_error [of E d "DESKTOPPATHS E" "probed R" e]
  by (auto simp: getDesktopFile_def split: option.splits prod.splits sum.splits)

lemma getDesktopIdFromDesktopUri_error:
  "fst (getDesktopIdFromDesktopUri E R u) = Inl e \<Longrightarrow> e = AttributeError"
  using getDesktopFile_error [of E R "defile u" e]
  by (auto simp: getDesktopIdFromDesktopUri_def split: if_splits)

lemma Application_init_from_id:
  assumes "truthy d"
  shows "fst (Application_init E R d p pid0 ts te i) = Inl ValueError_CouldNotInit
     \<longleftrightarrow> (\<exists>did. fst (getDesktopIdFromDesktopUri E R (lower (the d))) = Inr did
                \<and> \<not> truthy (fst did))"
proof (cases "getDesktopIdFromDesktopUri E R (lower (the d))")
  case (Pair res R')
  show ?thesis
  proof (cases res)
    case (Inl e)
    with Pair have "e = AttributeError"
      using getDesktopIdFromDesktopUri_error [of E R "lower (the d)" e] by simp
    with Pair Inl assms show ?thesis
      by (simp add: Application_init_def initFromDesktopID_def)
  next
    case (Inr did)
    with Pair assms show ?thesis
      by (cases did)
        (auto simp: Application_init_def initFromDesktopID_def truthy_def
          split: option.splits)
  qed
qed

text \<open>
  The constructor and \<open>merge\<close> regenerate the key after their last assignment: the key of
  the record they return is the format of its identifier, pid and start.
\<close>

lemma Application_init_uid:
  "fst (Application_init E R d p pid0 ts te i) = Inr a \<Longrightarrow>
     uid a = format_uid (desktopid a) (pid a) (tstart a)"
  by (auto simp: Application_init_def regenUid_def uid_def
      split: prod.splits sum.splits option.splits if_splits)

lemma merge_fields_uid:
  "uid (merge_fields h self other self)
     = format_uid (desktopid (merge_fields h self other self))
         (pid (merge_fields h self other self)) (tstart (merge_fields h self other self))"
  by (simp add: merge_fields_def upd_def Let_def regenUid_def uid_def setTimeOfStart_def
      setTimeOfEnd_def)

lemma merge_uid:
  assumes "fst (merge h self other) = Inr r"
  shows "uid (snd (merge h self other) r)
       = format_uid (desktopid (snd (merge h self other) r)) (pid (snd (merge h self other) r))
           (tstart (snd (merge h self other) r))"
proof -
  from assms have r: "r = self" by (rule merge_returns_self)
  from assms obtain h' where "snd (merge h self other) = merge_fields h' self other"
    by (auto simp: merge_def split: if_splits sum.splits)
  then show ?thesis by (simp add: r merge_fields_uid)
qed

text \<open>
  C5. Construction from a raw path alone: the constructor calls \<^verbatim>\<open>self.__initFromPath()\<close>,
  a method the class does not define, so the call raises \<^verbatim>\<open>AttributeError\<close>. The resolver
  is returned as it was: it is not consulted.
\<close>

theorem Application_init_from_path_raises:
  "Application_init E R None (Some ''/usr/bin/ristretto'') 21 0 300 None
     = (Inl AttributeError, R)"
  by (simp add: Application_init_def truthy_def)

text \<open>
  C7. \<open>setTimeOfStart\<close> and \<open>split\<close> change the start without regenerating the key: after
  \<open>setTimeOfStart\<close> to 5 the key still ends in 0, and the right half of a split whose
  start became 140 still carries the key of start 0.
\<close>

theorem uid_stale_after_tstart_change:
  "uid (setTimeOfStart ristretto 5) = ''ristretto:21:0''
   \<and> format_uid (desktopid (setTimeOfStart ristretto 5)) (pid (setTimeOfStart ristretto 5))
        (tstart (setTimeOfStart ristretto 5)) = ''ristretto:21:5''
   \<and> fst (split ristretto140 100 139)
        = Inr (ristretto140\<lparr>events := []\<rparr>, ristretto140\<lparr>tstart := 140\<rparr>)
   \<and> uid (ristretto140\<lparr>tstart := 140\<rparr>) = ''ristretto:21:0''
   \<and> format_uid (desktopid (ristretto140\<lparr>tstart := 140\<rparr>)) (pid (ristretto140\<lparr>tstart := 140\<rparr>))
        (tstart (ristretto140\<lparr>tstart := 140\<rparr>)) = ''ristretto:21:140''"
  by (simp add: split_def events_ristretto140 bisect_left_def bisect_right_def event140_def)
    (simp add: ristretto140_def ristretto_def addEvent_def setTimeOfStart_def uid_def
      format_uid_def str_of_def show_int_def show_nat.simps)

section \<open>Claims about the resolver and the file descriptor table\<close>

text \<open>
  When no search location yields a parseable descriptor, the loop probes every location and
  returns no identifier; \<^verbatim>\<open>__getDesktopFile\<close> then stores the pair under the key it computed,
  \<^verbatim>\<open>finalid\<close>, which is \<^verbatim>\<open>None\<close>, not under the identifier it was asked for.
\<close>

lemma probe_paths_all_fail:
  "\<forall>p \<in> set ps. \<not> parse_ok E (depath_of E d p) \<Longrightarrow>
     probe_paths E d ps log = (Inr (None, None), log @ map (depath_of E d) ps)"
  by (induction ps arbitrary: log) (simp_all add: Let_def)

lemma getDesktopFile_miss:
  assumes "desktopCache R (Some d) = None"
    and "\<forall>p \<in> set (DESKTOPPATHS E). \<not> parse_ok E (depath_of E d p)"
  shows "getDesktopFile E R d =
     (Inr (None, None),
      R\<lparr>desktopCache := (desktopCache R)(None \<mapsto> (None, None)),
        probed := probed R @ map (depath_of E d) (DESKTOPPATHS E)\<rparr>)"
  using assms by (simp add: getDesktopFile_def probe_paths_all_fail)

lemma initFromDesktopID_miss:
  assumes "uri \<noteq> []" and "desktopCache R (Some (defile uri)) = None"
    and "\<forall>p \<in> set (DESKTOPPATHS E). \<not> parse_ok E (depath_of E (defile uri) p)"
  shows "initFromDesktopID E R uri =
     (Inl ValueError_CouldNotInit,
      R\<lparr>desktopCache := (desktopCache R)(None \<mapsto> (None, None)),
        probed := probed R @ map (depath_of E (defile uri)) (DESKTOPPATHS E)\<rparr>)"
  using assms
  by (simp add: initFromDesktopID_def getDesktopIdFromDesktopUri_def getDesktopFile_miss)

text \<open>
  C6, as the specification states it, fails: the second resolution of \<^verbatim>\<open>foo.desktop\<close> raises
  again, but it probes the search location again; the identifier never becomes a key of
  the cache.
\<close>

theorem resolve_missing_twice_counterexample:
  "initFromDesktopID demo_env empty_resolver ''foo.desktop''
     = (Inl ValueError_CouldNotInit, foo_resolver)
   \<and> probed foo_resolver = [''/usr/share/applications/foo.desktop'']
   \<and> desktopCache foo_resolver (Some ''foo.desktop'') = None
   \<and> fst (initFromDesktopID demo_env foo_resolver ''foo.desktop'') = Inl ValueError_CouldNotInit
   \<and> probed (snd (initFromDesktopID demo_env foo_resolver ''foo.desktop''))
       = [''/usr/share/applications/foo.desktop'', ''/usr/share/applications/foo.desktop'']"
  by (simp add: foo_resolver_def initFromDesktopID_def getDesktopIdFromDesktopUri_def
      getDesktopFile_def demo_env_def empty_resolver_def defile_def depath_of_def
      startswith_def endswith_def Let_def)

text \<open>
  C6, amended. For an identifier that is not a key of the cache and for which no search
  location yields a parseable descriptor: resolving it raises the \<^verbatim>\<open>ValueError\<close> of
  \<^verbatim>\<open>__initFromDesktopID\<close> and stores the negative result under the key \<^verbatim>\<open>None\<close>; a second
  resolution of the same identifier raises again, after probing every search location
  once more.
\<close>

theorem resolve_missing_twice:
  assumes "uri \<noteq> []" and "desktopCache R (Some (defile uri)) = None"
    and "\<forall>p \<in> set (DESKTOPPATHS E). \<not> parse_ok E (depath_of E (defile uri) p)"
  shows "fst (initFromDesktopID E R uri) = Inl ValueError_CouldNotInit
       \<and> desktopCache (snd (initFromDesktopID E R uri))
           = (desktopCache R)(None \<mapsto> (None, None))
       \<and> probed (snd (initFromDesktopID E R uri))
           = probed R @ map (depath_of E (defile uri)) (DESKTOPPATHS E)
       \<and> fst (initFromDesktopID E (snd (initFromDesktopID E R uri)) uri)
           = Inl ValueError_CouldNotInit
       \<and> probed (snd (initFromDesktopID E (snd (initFromDesktopID E R uri)) uri))
           = probed R @ map (depath_of E (defile uri)) (DESKTOPPATHS E)
               @ map (depath_of E (defile uri)) (DESKTOPPATHS E)"
proof -
  let ?R1 = "R\<lparr>desktopCache := (desktopCache R)(None \<mapsto> (None, None)),
        probed := probed R @ map (depath_of E (defile uri)) (DESKTOPPATHS E)\<rparr>"
  have first: "initFromDesktopID E R uri = (Inl ValueError_CouldNotInit, ?R1)"
    using assms by (rule initFromDesktopID_miss)
  have still: "desktopCache ?R1 (Some (defile uri)) = None"
    using assms(2) by simp
  have second: "initFromDesktopID E ?R1 uri =
     (Inl ValueError_CouldNotInit,
      ?R1\<lparr>desktopCache := (desktopCache ?R1)(None \<mapsto> (None, None)),
        probed := probed ?R1 @ map (depath_of E (defile uri)) (DESKTOPPATHS E)\<rparr>)"
    using assms(1) still assms(3) by (rule initFromDesktopID_miss)
  show ?thesis by (simp add: first second)
qed

theorem resolve_missing_twice_witness:
  "''foo.desktop'' \<noteq> [] \<and> desktopCache empty_resolver (Some (defile ''foo.desktop'')) = None
   \<and> fst (initFromDesktopID demo_env empty_resolver ''foo.desktop'') = Inl ValueError_CouldNotInit
   \<and> fst (initFromDesktopID demo_env
        (snd (initFromDesktopID demo_env empty_resolver ''foo.desktop'')) ''foo.desktop'')
       = Inl ValueError_CouldNotInit
   \<and> length (probed (snd (initFromDesktopID demo_env
        (snd (initFromDesktopID demo_env empty_resolver ''foo.desktop'')) ''foo.desktop''))) = 2"
proof -
  have a: "''foo.desktop'' \<noteq> []" by simp
  have b: "desktopCache empty_resolver (Some (defile ''foo.desktop'')) = None"
    by (simp add: empty_resolver_def)
  have c: "\<forall>p \<in> set (DESKTOPPATHS demo_env).
      \<not> parse_ok demo_env (depath_of demo_env (defile ''foo.desktop'') p)"
    by (simp add: demo_env_def depath_of_def defile_def startswith_def endswith_def)
  from resolve_missing_twice [OF a b c] a b show ?thesis
    by (simp add: demo_env_def empty_resolver_def)
qed

text \<open>
  The loop of \<^verbatim>\<open>resolveFD\<close> returns the locator of the first interval, in list order, that
  contains the time.
\<close>

lemma scan_fds_find:
  "scan_fds l t = map_option fst (find (\<lambda>iv. contains_time iv t) l)"
  by (induction l t rule: scan_fds.induct) (auto simp: contains_time_def)

lemma resolveFD_find:
  "resolveFD a fd t = map_option fst (find (\<lambda>iv. contains_time iv t) (intervals a fd))"
  by (simp add: resolveFD_def intervals_def scan_fds_find split: option.splits)

text \<open>
  C9. After any sequence of \<^verbatim>\<open>openFD\<close> and \<^verbatim>\<open>closeFD\<close> calls, \<open>resolveFD\<close> returns the
  locator of the first interval of the handle's list that contains the queried time (an
  interval with close time 0 contains every time from its opening on); it returns
  \<^verbatim>\<open>None\<close> exactly when no interval of the handle contains the time, in particular when
  the handle is unknown.
\<close>

theorem resolveFD_interval:
  "resolveFD (fdcalls_run E a cs) fd t
     = map_option fst (find (\<lambda>iv. contains_time iv t) (intervals (fdcalls_run E a cs) fd))
   \<and> (resolveFD (fdcalls_run E a cs) fd t = None
        \<longleftrightarrow> (\<forall>iv \<in> set (intervals (fdcalls_run E a cs) fd). \<not> contains_time iv t))
   \<and> (\<forall>p. resolveFD (fdcalls_run E a cs) fd t = Some p
        \<longrightarrow> (\<exists>iv \<in> set (intervals (fdcalls_run E a cs) fd). fst iv = p \<and> contains_time iv t))
   \<and> (fds (fdcalls_run E a cs) fd = None \<longrightarrow> resolveFD (fdcalls_run E a cs) fd t = None)"
proof -
  let ?a = "fdcalls_run E a cs"
  have eq: "resolveFD ?a fd t
      = map_option fst (find (\<lambda>iv. contains_time iv t) (intervals ?a fd))"
    by (rule resolveFD_find)
  have none: "resolveFD ?a fd t = None
      \<longleftrightarrow> (\<forall>iv \<in> set (intervals ?a fd). \<not> contains_time iv t)"
    by (auto simp: eq find_None_iff)
  have some: "\<exists>iv \<in> set (intervals ?a fd). fst iv = p \<and> contains_time iv t"
    if "resolveFD ?a fd t = Some p" for p
  proof -
    from that obtain iv where f: "find (\<lambda>iv. contains_time iv t) (intervals ?a fd) = Some iv"
      and p: "fst iv = p"
      by (auto simp: eq)
    from f have "iv \<in> set (intervals ?a fd)" "contains_time iv t"
      by (auto simp: find_Some_iff)
    with p show ?thesis by blast
  qed
  have unknown: "resolveFD ?a fd t = None" if "fds ?a fd = None"
    using that by (simp add: resolveFD_def)
  from eq none some unknown show ?thesis by blast
qed

theorem resolveFD_interval_witness:
  "intervals (fdcalls_run demo_env ristretto [OpenFD 3 ''/tmp/x'' 10]) 3 = [(''/tmp/x'', 10, 0)]
   \<and> resolveFD (fdcalls_run demo_env ristretto [OpenFD 3 ''/tmp/x'' 10]) 3 15 = Some ''/tmp/x''
   \<and> intervals (fdcalls_run demo_env ristretto [OpenFD 3 ''/tmp/x'' 10, CloseFD 3 20]) 3
       = [(''/tmp/x'', 10, 20)]
   \<and> \<not> contains_time (''/tmp/x'', 10, 20) 25
   \<and> resolveFD (fdcalls_run demo_env ristretto [OpenFD 3 ''/tmp/x'' 10, CloseFD 3 20]) 3 25 = None"
proof -
  have i1: "intervals (fdcalls_run demo_env ristretto [OpenFD 3 ''/tmp/x'' 10]) 3
      = [(''/tmp/x'', 10, 0)]"
    by (simp add: fdcalls_run_def openFD_def intervals_def ristretto_def startswith_def)
  have i2: "intervals (fdcalls_run demo_env ristretto [OpenFD 3 ''/tmp/x'' 10, CloseFD 3 20]) 3
      = [(''/tmp/x'', 10, 20)]"
    by (simp add: fdcalls_run_def openFD_def closeFD_def intervals_def ristretto_def
        startswith_def)
  have n: "\<not> contains_time (''/tmp/x'', 10, 20) 25"
    by (simp add: contains_time_def)
  from resolveFD_interval
    [of demo_env ristretto "[OpenFD 3 ''/tmp/x'' 10]" 3 15]
  have r1: "resolveFD (fdcalls_run demo_env ristretto [OpenFD 3 ''/tmp/x'' 10]) 3 15
      = Some ''/tmp/x''"
    by (simp add: i1 contains_time_def)
  from resolveFD_interval
    [of demo_env ristretto "[OpenFD 3 ''/tmp/x'' 10, CloseFD 3 20]" 3 25]
  have r2: "resolveFD (fdcalls_run demo_env ristretto
      [OpenFD 3 ''/tmp/x'' 10, CloseFD 3 20]) 3 25 = None"
    by (simp add: i2 n)
  from i1 i2 n r1 r2 show ?thesis by simp
qed

section \<open>The event list stays ordered\<close>

text \<open>
  The order of the event list is an invariant of the container: \<open>add\<close>, \<open>update\<close>,
  \<open>addEvent\<close> and \<open>merge\<close> keep a list ordered by time ordered, and \<open>merge\<close> leaves
  \<open>self\<close> with the events of both records.
\<close>

lemma take_bisect_right:
  assumes "sorted (map time evs)"
  shows "take (bisect_right evs t) evs = filter (\<lambda>e. time e \<le> t) evs"
proof -
  have "take (bisect_right evs t) evs = takeWhile (\<lambda>e. time e \<le> t) evs"
    unfolding bisect_right_def by (rule takeWhile_eq_take [symmetric])
  with assms show ?thesis by (simp only: takeWhile_filter_le)
qed

lemma sorted_sortedlist_add:
  assumes "sorted (map time evs)"
  shows "sorted (map time (sortedlist_add e evs))"
proof -
  have "sortedlist_add e evs
      = filter (\<lambda>x. time x \<le> time e) evs @ e # filter (\<lambda>x. time e < time x) evs"
    by (simp add: sortedlist_add_def Let_def take_bisect_right [OF assms]
        drop_bisect_right [OF assms])
  moreover have "sorted (map time (filter (\<lambda>x. time x \<le> time e) evs))"
    "sorted (map time (filter (\<lambda>x. time e < time x) evs))"
    using assms by (simp_all add: sorted_filter)
  ultimately show ?thesis
    by (auto simp: sorted_append)
qed

lemma set_sortedlist_add: "set (sortedlist_add e evs) = insert e (set evs)"
proof -
  have "set (take (bisect_right evs (time e)) evs) \<union> set (drop (bisect_right evs (time e)) evs)
      = set evs"
    by (metis append_take_drop_id set_append)
  then show ?thesis by (auto simp: sortedlist_add_def Let_def)
qed

lemma sorted_sortedlist_update:
  "sorted (map time evs) \<Longrightarrow> sorted (map time (sortedlist_update evs new))"
  unfolding sortedlist_update_def
  by (induction new arbitrary: evs) (simp_all add: sorted_sortedlist_add)

lemma set_sortedlist_update: "set (sortedlist_update evs new) = set evs \<union> set new"
  unfolding sortedlist_update_def
  by (induction new arbitrary: evs) (auto simp: set_sortedlist_add)

lemma sorted_addEvent:
  "sorted (map time (events a)) \<Longrightarrow> sorted (map time (events (addEvent a e)))"
  by (simp add: addEvent_def sorted_sortedlist_add)

lemma merge_fields_events:
  "events (merge_fields h self other self)
     = sortedlist_update (events (h self)) (set_minus (events (h other)) (events (h self)))"
  by (cases "self = other")
    (simp_all add: merge_fields_def upd_def Let_def setTimeOfStart_def setTimeOfEnd_def
      regenUid_def)

lemma merge_identity_events:
  "merge_identity h self other = Inr h' \<Longrightarrow> events (h' x) = events (h x)"
  by (auto simp: merge_identity_def upd_def Let_def regenUid_def split: if_splits)

lemma merge_events:
  assumes "fst (merge h self other) = Inr r"
  shows "set (events (snd (merge h self other) r)) = set (events (h self)) \<union> set (events (h other))"
    and "sorted (map time (events (h self)))
           \<Longrightarrow> sorted (map time (events (snd (merge h self other) r)))"
proof -
  from assms have r: "r = self" by (rule merge_returns_self)
  from assms obtain h' where id: "merge_identity h self other = Inr h'"
    and m: "snd (merge h self other) = merge_fields h' self other"
    by (auto simp: merge_def split: if_splits sum.splits)
  have e: "events (h' self) = events (h self)" "events (h' other) = events (h other)"
    using merge_identity_events [OF id] by simp_all
  show "set (events (snd (merge h self other) r)) = set (events (h self)) \<union> set (events (h other))"
    by (auto simp: r m merge_fields_events e set_sortedlist_update set_minus_def)
  show "sorted (map time (events (snd (merge h self other) r)))"
    if "sorted (map time (events (h self)))"
    using that by (simp add: r m merge_fields_events e sorted_sortedlist_update)
qed

end
